theory Spec2Isabelle
  imports Main "HOL-Library.Word" "HOL-Library.Sublist"
begin

section \<open>Data model\<close>

text \<open>
  The class \<open>xtd::strings\<close> of \<open>strings.hpp\<close> is a collection of static functions over
  \<open>std::basic_string<Char>\<close>. A narrow string (\<open>std::string\<close>) is a \<^typ>\<open>string\<close>, a list
  of bytes, and may hold the byte 0 anywhere. A \<open>char16_t\<close> and a \<open>char32_t\<close> string are
  lists of 16-bit and 32-bit words. \<open>size_t\<close> is a 64-bit word where the source relies on
  its wrap-around (\<open>npos\<close>, the subtraction in \<open>ends_width\<close>) and a natural number where
  the source only counts.
\<close>

type_synonym size_t = "64 word"
type_synonym char16_t = "16 word"
type_synonym char32_t = "32 word"

text \<open>\<open>enum class string_split_options\<close> (declared in \<open>string_split_options.hpp\<close>).\<close>

datatype string_split_options = none | remove_empty_entries

text \<open>
  Every function of the class is \<open>noexcept\<close>: an exception that leaves a standard-library
  call inside one of them ends the program through \<open>std::terminate\<close>.
\<close>

datatype error = Terminated

text \<open>
  \<open>std::locale()\<close> is the global locale of the process. The functions read only its
  single-byte case tables (\<open>std::tolower(c, lc)\<close>, \<open>std::toupper(c, lc)\<close>), which are
  taken as a parameter.
\<close>

record std_locale =
  ctype_tolower :: "char \<Rightarrow> char"
  ctype_toupper :: "char \<Rightarrow> char"

text \<open>The tables of the classic \<open>"C"\<close> locale, the global locale of a program that sets none.\<close>

definition classic_locale :: std_locale where
  "classic_locale =
     \<lparr> ctype_tolower = (\<lambda>c. if 65 \<le> (of_char c :: nat) \<and> (of_char c :: nat) \<le> 90
                              then char_of ((of_char c :: nat) + 32) else c),
       ctype_toupper = (\<lambda>c. if 97 \<le> (of_char c :: nat) \<and> (of_char c :: nat) \<le> 122
                              then char_of ((of_char c :: nat) - 32) else c) \<rparr>"

text \<open>\<open>std::numeric_limits<size_t>::max()\<close>, the count of the overloads without a count.\<close>

definition size_t_max :: nat where
  "size_t_max = 2 ^ 64 - 1"

definition npos :: size_t where
  "npos = - 1"

section \<open>Standard-library primitives the functions call\<close>

text \<open>
  \<open>str.c_str()\<close> read as a NUL-terminated C string: the characters before the first
  byte 0.
\<close>

definition c_str :: "string \<Rightarrow> string" where
  "c_str s = takeWhile (\<lambda>c. c \<noteq> CHR 0x00) s"

text \<open>
  \<open>std::string(s, pos, n)\<close> on a \<open>const char*\<close> \<open>s\<close>: the substring of the C string from
  \<open>pos\<close>, at most \<open>n\<close> characters long. It throws \<open>std::out_of_range\<close> when \<open>pos\<close> is
  beyond the end.
\<close>

definition substr_ctor :: "string \<Rightarrow> nat \<Rightarrow> nat \<Rightarrow> error + string" where
  "substr_ctor s pos n = (if pos > length s then Inl Terminated else Inr (take n (drop pos s)))"

text \<open>
  \<open>str.find(value)\<close> and \<open>str.rfind(value)\<close>, for any character type: the position of
  the first, respectively last, occurrence of \<open>value\<close> in \<open>str\<close>, or \<open>npos\<close>.
\<close>

definition occurs_at :: "'c list \<Rightarrow> 'c list \<Rightarrow> nat \<Rightarrow> bool" where
  "occurs_at str val i = (take (length val) (drop i str) = val)"

definition find_str :: "'c list \<Rightarrow> 'c list \<Rightarrow> size_t" where
  "find_str str val =
     (if length val \<le> length str
      then (case List.find (occurs_at str val) [0 ..< Suc (length str - length val)] of
              None \<Rightarrow> npos
            | Some i \<Rightarrow> of_nat i)
      else npos)"

definition rfind :: "'c list \<Rightarrow> 'c list \<Rightarrow> size_t" where
  "rfind str val =
     (if length val \<le> length str
      then (case List.find (occurs_at str val) (rev [0 ..< Suc (length str - length val)]) of
              None \<Rightarrow> npos
            | Some i \<Rightarrow> of_nat i)
      else npos)"

text \<open>
  \<open>a.compare(b)\<close> of \<open>std::basic_string\<close>: the lexicographic comparison of the code
  units by their unsigned values (\<open>code\<close> reads one), a shorter string before its
  extensions. The standard fixes only the sign of the result; the model returns the sign.
\<close>

fun string_compare :: "('c \<Rightarrow> nat) \<Rightarrow> 'c list \<Rightarrow> 'c list \<Rightarrow> int" where
  "string_compare code [] [] = 0"
| "string_compare code [] (y # ys) = - 1"
| "string_compare code (x # xs) [] = 1"
| "string_compare code (x # xs) (y # ys) =
     (if code x < code y then - 1
      else if code y < code x then 1
      else string_compare code xs ys)"

section \<open>Case conversion\<close>

text \<open>The template \<open>to_lower\<close> and \<open>to_upper\<close>, at \<open>Char = char\<close>.\<close>

definition to_lower :: "std_locale \<Rightarrow> string \<Rightarrow> string" where
  "to_lower lc str = map (ctype_tolower lc) str"

definition to_upper :: "std_locale \<Rightarrow> string \<Rightarrow> string" where
  "to_upper lc str = map (ctype_toupper lc) str"

text \<open>
  The overloads for \<open>char16_t\<close> and \<open>char32_t\<close> strings. \<open>static_cast<char>(c)\<close> keeps the
  low byte; the cast back widens the \<open>char\<close> the table returned, with its sign where
  \<open>char\<close> is a signed type (\<open>char_signed\<close>, fixed by the platform).
\<close>

definition narrow16 :: "char16_t \<Rightarrow> char" where
  "narrow16 c = char_of (unat c)"

definition narrow32 :: "char32_t \<Rightarrow> char" where
  "narrow32 c = char_of (unat c)"

definition widen16 :: "bool \<Rightarrow> char \<Rightarrow> char16_t" where
  "widen16 char_signed c =
     (if char_signed then scast (of_nat (of_char c) :: 8 word) else of_nat (of_char c))"

definition widen32 :: "bool \<Rightarrow> char \<Rightarrow> char32_t" where
  "widen32 char_signed c =
     (if char_signed then scast (of_nat (of_char c) :: 8 word) else of_nat (of_char c))"

definition to_lower_char16 :: "std_locale \<Rightarrow> bool \<Rightarrow> char16_t list \<Rightarrow> char16_t list" where
  "to_lower_char16 lc char_signed str =
     map (\<lambda>c. if c \<le> 0xFF then widen16 char_signed (ctype_tolower lc (narrow16 c)) else c) str"

definition to_lower_char32 :: "std_locale \<Rightarrow> bool \<Rightarrow> char32_t list \<Rightarrow> char32_t list" where
  "to_lower_char32 lc char_signed str =
     map (\<lambda>c. if c \<le> 0xFF then widen32 char_signed (ctype_tolower lc (narrow32 c)) else c) str"

definition to_upper_char16 :: "std_locale \<Rightarrow> bool \<Rightarrow> char16_t list \<Rightarrow> char16_t list" where
  "to_upper_char16 lc char_signed str =
     map (\<lambda>c. if c \<le> 0xFF then widen16 char_signed (ctype_toupper lc (narrow16 c)) else c) str"

definition to_upper_char32 :: "std_locale \<Rightarrow> bool \<Rightarrow> char32_t list \<Rightarrow> char32_t list" where
  "to_upper_char32 lc char_signed str =
     map (\<lambda>c. if c \<le> 0xFF then widen32 char_signed (ctype_toupper lc (narrow32 c)) else c) str"

section \<open>Comparison, containment, prefix and suffix\<close>

text \<open>
  The template \<open>compare(str_a, str_b, ignore_case)\<close> at \<open>char\<close>, \<open>char16_t\<close> and
  \<open>char32_t\<close>: each instance calls the \<open>to_lower\<close> overload of its string type.
\<close>

definition compare :: "std_locale \<Rightarrow> string \<Rightarrow> string \<Rightarrow> bool \<Rightarrow> int" where
  "compare lc str_a str_b ignore_case =
     (if ignore_case then string_compare of_char (to_lower lc str_a) (to_lower lc str_b)
      else string_compare of_char str_a str_b)"

definition compare_char16 ::
  "std_locale \<Rightarrow> bool \<Rightarrow> char16_t list \<Rightarrow> char16_t list \<Rightarrow> bool \<Rightarrow> int" where
  "compare_char16 lc char_signed str_a str_b ignore_case =
     (if ignore_case
      then string_compare unat (to_lower_char16 lc char_signed str_a)
             (to_lower_char16 lc char_signed str_b)
      else string_compare unat str_a str_b)"

definition compare_char32 ::
  "std_locale \<Rightarrow> bool \<Rightarrow> char32_t list \<Rightarrow> char32_t list \<Rightarrow> bool \<Rightarrow> int" where
  "compare_char32 lc char_signed str_a str_b ignore_case =
     (if ignore_case
      then string_compare unat (to_lower_char32 lc char_signed str_a)
             (to_lower_char32 lc char_signed str_b)
      else string_compare unat str_a str_b)"

definition contains :: "'c list \<Rightarrow> 'c list \<Rightarrow> bool" where
  "contains str val = (find_str str val \<noteq> npos)"

definition ends_width :: "std_locale \<Rightarrow> string \<Rightarrow> string \<Rightarrow> bool \<Rightarrow> bool" where
  "ends_width lc str val ignore_case =
     (if ignore_case
      then rfind (to_lower lc str) (to_lower lc val) - of_nat (length (to_lower lc val)) = 0
      else rfind str val - of_nat (length val) = 0)"

definition starts_width :: "std_locale \<Rightarrow> string \<Rightarrow> string \<Rightarrow> bool \<Rightarrow> bool" where
  "starts_width lc str val ignore_case =
     (if ignore_case then find_str (to_lower lc str) (to_lower lc val) = 0
      else find_str str val = 0)"

section \<open>Splitting\<close>

definition default_separators :: "char list" where
  "default_separators = [CHR 0x09, CHR 0x0A, CHR 0x0B, CHR 0x0C, CHR 0x0D, CHR 0x20]"

text \<open>
  The \<open>for\<close> loop of \<open>split\<close>, which compiles at \<open>Char = char\<close> (its iterator is a
  \<open>std::string::const_iterator\<close>). \<open>it\<close> is the iterator as an index into \<open>str\<close>, \<open>list\<close>
  the tokens pushed so far and \<open>subString\<close> the pending token. The loop runs on a
  non-empty \<open>str\<close> and a count past 1, so neither \<open>str.length() - 1\<close> nor \<open>count - 1\<close>
  wraps.
\<close>

function split_loop ::
  "string \<Rightarrow> char list \<Rightarrow> nat \<Rightarrow> string_split_options \<Rightarrow> nat \<Rightarrow> string list \<Rightarrow> string
     \<Rightarrow> error + string list" where
  "split_loop str seps count options it list subString =
    (if it < length str then
       (let is_separator = (str ! it \<in> set seps);
            subString = (if \<not> is_separator then subString @ [str ! it] else subString)
        in if (it = length str - 1 \<or> is_separator)
              \<and> (length subString > 0 \<or> (length subString = 0 \<and> options \<noteq> remove_empty_entries))
           then (if length list = count - 1
                 then (case substr_ctor (c_str str) (it + (if is_separator then 1 else 0))
                              (length str - it + (if is_separator then 1 else 0)) of
                         Inl e \<Rightarrow> Inl e
                       | Inr tail \<Rightarrow> Inr (list @ [subString @ tail]))
                 else split_loop str seps count options (it + 1) (list @ [subString]) [])
           else split_loop str seps count options (it + 1) list subString)
     else Inr list)"
  by pat_completeness auto
termination
  by (relation "measure (\<lambda>(str, seps, count, options, it, list, subString). length str - it)") auto

definition split_char_separators :: "char list \<Rightarrow> char list" where
  "split_char_separators separators =
     (if length separators = 0 then default_separators else separators)"

definition split :: "string \<Rightarrow> char list \<Rightarrow> nat \<Rightarrow> string_split_options \<Rightarrow> error + string list" where
  "split str separators count options =
    (if count = 0 then Inr []
     else if count = 1 then Inr [str]
     else split_loop str (split_char_separators separators) count options 0 [] [])"

subsection \<open>The parts of one iteration, named for the proofs\<close>

text \<open>
  \<open>pending\<close> is the pending token after the character at \<open>it\<close> was read, \<open>closes\<close> the
  test that a token is closed there, \<open>remainder\<close> the string the truncation branch
  appends.
\<close>

definition pending :: "string \<Rightarrow> char list \<Rightarrow> nat \<Rightarrow> string \<Rightarrow> string" where
  "pending str seps it subString =
     (if str ! it \<in> set seps then subString else subString @ [str ! it])"

definition closes :: "string \<Rightarrow> char list \<Rightarrow> string_split_options \<Rightarrow> nat \<Rightarrow> string \<Rightarrow> bool" where
  "closes str seps options it subString =
     ((it = length str - 1 \<or> str ! it \<in> set seps)
      \<and> (pending str seps it subString \<noteq> [] \<or> options \<noteq> remove_empty_entries))"

definition remainder :: "string \<Rightarrow> char list \<Rightarrow> nat \<Rightarrow> error + string" where
  "remainder str seps it =
     (if str ! it \<in> set seps then substr_ctor (c_str str) (it + 1) (length str - it + 1)
      else substr_ctor (c_str str) it (length str - it))"

section \<open>Formatting\<close>

text \<open>
  \<open>convert_param\<close> chooses by the static type of the argument (\<open>if constexpr\<close>), so an
  argument is a value tagged with the alternative its type selects. A pointer returned
  by \<open>c_str()\<close> is represented by the character data it points to. \<open>'w\<close> is \<open>wchar_t\<close>,
  \<open>'a\<close> stands for the values of every other argument type.
\<close>

datatype ('w, 'a) arg = Std_string string | Std_wstring "'w list" | Other 'a

datatype ('w, 'a) param = Char_ptr string | Wchar_ptr "'w list" | Forwarded 'a

fun convert_param :: "('w, 'a) arg \<Rightarrow> ('w, 'a) param" where
  "convert_param (Std_string s) = Char_ptr s"
| "convert_param (Std_wstring s) = Wchar_ptr s"
| "convert_param (Other v) = Forwarded v"

text \<open>
  \<open>format\<close> hands the template and the converted arguments to \<open>__format\<close> of
  \<open>__format.hpp\<close>, which is taken as a parameter.
\<close>

definition format ::
  "(string \<Rightarrow> ('w, 'a) param list \<Rightarrow> string) \<Rightarrow> string \<Rightarrow> ('w, 'a) arg list \<Rightarrow> string" where
  "format low_level_format fmt args = low_level_format (c_str fmt) (map convert_param args)"

section \<open>Containment\<close>

lemma find_str_empty_value: "find_str str [] = 0"
proof -
  have "[0 ..< Suc (length str)] = 0 # [Suc 0 ..< Suc (length str)]"
    by (rule upt_conv_Cons) simp
  then have "List.find (occurs_at str []) [0 ..< Suc (length str)] = Some 0"
    by (simp only: find.simps occurs_at_def) simp
  then show ?thesis
    by (simp add: find_str_def del: upt_Suc)
qed

text \<open>
  C10. For every string \<open>str\<close>, \<open>contains(str, value)\<close> with \<open>value\<close> the empty string
  returns true, also when \<open>str\<close> is empty: the empty string is found at position 0.
\<close>

theorem contains_empty_value: "contains str []"
  by (simp add: contains_def find_str_empty_value npos_def)

section \<open>Case-insensitive comparison\<close>

lemma string_compare_flip: "string_compare code b a = - string_compare code a b"
  by (induction code a b rule: string_compare.induct) auto

text \<open>
  C9. Sign antisymmetry of the case-insensitive comparison: for every pair of strings
  \<open>a\<close> and \<open>b\<close>, \<open>compare(a, b, true)\<close> and \<open>compare(b, a, true)\<close> have opposite signs,
  and one is zero exactly when the other is. It holds at each character width and for
  every case table of the locale.
\<close>

theorem compare_ignore_case_antisymmetric:
  "sgn (compare lc a b True) = - sgn (compare lc b a True)
   \<and> (compare lc a b True = 0 \<longleftrightarrow> compare lc b a True = 0)
   \<and> sgn (compare_char16 lc sg u v True) = - sgn (compare_char16 lc sg v u True)
   \<and> (compare_char16 lc sg u v True = 0 \<longleftrightarrow> compare_char16 lc sg v u True = 0)
   \<and> sgn (compare_char32 lc sg x y True) = - sgn (compare_char32 lc sg y x True)
   \<and> (compare_char32 lc sg x y True = 0 \<longleftrightarrow> compare_char32 lc sg y x True = 0)"
  using string_compare_flip [of of_char "to_lower lc b" "to_lower lc a"]
    string_compare_flip [of unat "to_lower_char16 lc sg v" "to_lower_char16 lc sg u"]
    string_compare_flip [of unat "to_lower_char32 lc sg y" "to_lower_char32 lc sg x"]
  by (simp add: compare_def compare_char16_def compare_char32_def)

section \<open>Case conversion of wide strings\<close>

text \<open>
  C8. For every \<open>char16_t\<close> or \<open>char32_t\<close> string, \<open>to_lower\<close> and \<open>to_upper\<close> return a
  string of the same length in which every code unit above 255 stands unchanged at its
  position; a code unit in the range 0 to 255 is the widened result of the locale's
  single-byte table on its low byte.
\<close>

theorem wide_case_conversion:
  "length (to_lower_char16 lc sg s) = length s
   \<and> length (to_upper_char16 lc sg s) = length s
   \<and> length (to_lower_char32 lc sg t) = length t
   \<and> length (to_upper_char32 lc sg t) = length t
   \<and> (\<forall>i < length s. 255 < s ! i \<longrightarrow>
         to_lower_char16 lc sg s ! i = s ! i \<and> to_upper_char16 lc sg s ! i = s ! i)
   \<and> (\<forall>i < length t. 255 < t ! i \<longrightarrow>
         to_lower_char32 lc sg t ! i = t ! i \<and> to_upper_char32 lc sg t ! i = t ! i)
   \<and> (\<forall>i < length s. s ! i \<le> 255 \<longrightarrow>
         to_lower_char16 lc sg s ! i = widen16 sg (ctype_tolower lc (narrow16 (s ! i)))
         \<and> to_upper_char16 lc sg s ! i = widen16 sg (ctype_toupper lc (narrow16 (s ! i))))
   \<and> (\<forall>i < length t. t ! i \<le> 255 \<longrightarrow>
         to_lower_char32 lc sg t ! i = widen32 sg (ctype_tolower lc (narrow32 (t ! i)))
         \<and> to_upper_char32 lc sg t ! i = widen32 sg (ctype_toupper lc (narrow32 (t ! i))))"
  by (simp add: to_lower_char16_def to_upper_char16_def to_lower_char32_def to_upper_char32_def
      not_le [symmetric])

theorem wide_case_conversion_witness:
  "length (to_lower_char16 classic_locale True [0x41, 0x263A]) = 2
   \<and> (255 :: char16_t) < [0x41, 0x263A] ! 1
   \<and> to_lower_char16 classic_locale True [0x41, 0x263A] ! 1 = 0x263A
   \<and> to_upper_char16 classic_locale True [0x41, 0x263A] ! 1 = 0x263A
   \<and> to_lower_char16 classic_locale True [0x41, 0x263A] ! 0 = 0x61
   \<and> length (to_upper_char32 classic_locale True [0x61, 0x1F600]) = 2
   \<and> (255 :: char32_t) < [0x61, 0x1F600] ! 1
   \<and> to_lower_char32 classic_locale True [0x61, 0x1F600] ! 1 = 0x1F600
   \<and> to_upper_char32 classic_locale True [0x61, 0x1F600] ! 1 = 0x1F600
   \<and> to_upper_char32 classic_locale True [0x61, 0x1F600] ! 0 = 0x41"
  using wide_case_conversion [of classic_locale True "[0x41, 0x263A]" "[0x61, 0x1F600]"]
  by (simp add: narrow16_def narrow32_def widen16_def widen32_def classic_locale_def nth_Cons')

section \<open>Argument conversion of format\<close>

text \<open>
  C5. For every argument supplied to \<open>format\<close>: a \<open>std::string\<close> or \<open>std::wstring\<close>
  argument reaches the low-level formatter as the pointer to its character data, and an
  argument of any other type reaches it unchanged.
\<close>

theorem format_converts_every_argument:
  "\<exists>params. format low_level_format fmt args = low_level_format (c_str fmt) params
     \<and> length params = length args
     \<and> (\<forall>i < length args.
          (case args ! i of
             Std_string s \<Rightarrow> params ! i = Char_ptr s
           | Std_wstring w \<Rightarrow> params ! i = Wchar_ptr w
           | Other v \<Rightarrow> params ! i = Forwarded v))"
  by (rule exI [of _ "map convert_param args"]) (simp add: format_def split: arg.split)

theorem format_converts_every_argument_witness:
  "\<exists>params :: (32 word, int) param list.
     format (\<lambda>f ps. f @ replicate (length ps) CHR ''.'') ''%s %d %ls''
         ([Std_string ''x'', Other 5, Std_wstring [0x263A]] :: (32 word, int) arg list)
       = c_str ''%s %d %ls'' @ replicate (length params) CHR ''.''
     \<and> length params = 3
     \<and> params ! 0 = Char_ptr ''x''
     \<and> params ! 1 = Forwarded 5
     \<and> params ! 2 = Wchar_ptr [0x263A]"
proof -
  let ?args = "[Std_string ''x'', Other 5, Std_wstring [0x263A]] :: (32 word, int) arg list"
  let ?low = "\<lambda>(f :: string) (ps :: (32 word, int) param list). f @ replicate (length ps) CHR ''.''"
  from format_converts_every_argument [of ?low "''%s %d %ls''" ?args]
  obtain params where eq: "format ?low ''%s %d %ls'' ?args = ?low (c_str ''%s %d %ls'') params"
    and len: "length params = length ?args"
    and each: "\<forall>i < length ?args.
          (case ?args ! i of
             Std_string s \<Rightarrow> params ! i = Char_ptr s
           | Std_wstring w \<Rightarrow> params ! i = Wchar_ptr w
           | Other v \<Rightarrow> params ! i = Forwarded v)"
    by blast
  from each [rule_format, of 0] have "params ! 0 = Char_ptr ''x''"
    by simp
  moreover from each [rule_format, of 1] have "params ! 1 = Forwarded 5"
    by simp
  moreover from each [rule_format, of 2] have "params ! 2 = Wchar_ptr [0x263A]"
    by simp
  ultimately show ?thesis
    using eq len by (intro exI [of _ params]) simp
qed

section \<open>Suffix test\<close>

text \<open>
  C3. \<open>ends_width(str, value, ignoreCase)\<close> is claimed to return true exactly when
  \<open>value\<close> is a suffix of \<open>str\<close>. The code compares the position of the last occurrence
  of \<open>value\<close> with the length of \<open>value\<close>, not with the distance to the end of \<open>str\<close>:
  it rejects the suffix \<open>lo\<close> of \<open>hello\<close> and accepts \<open>ab\<close> in \<open>xxabyy\<close>, where it is
  no suffix.
\<close>

theorem ends_width_is_not_suffix_test:
  "suffix ''lo'' ''hello'' \<and> \<not> ends_width classic_locale ''hello'' ''lo'' False
   \<and> \<not> suffix ''ab'' ''xxabyy'' \<and> ends_width classic_locale ''xxabyy'' ''ab'' False"
  by (simp add: ends_width_def rfind_def occurs_at_def npos_def suffix_Cons)

section \<open>Splitting on concrete inputs\<close>

lemmas split_eval = split_def split_char_separators_def c_str_def substr_ctor_def size_t_max_def

text \<open>
  C1. With more than \<open>maxTokens\<close> natural tokens, the final element is claimed to be the
  pending buffer followed by the rest of the input from the scan position on, the
  triggering delimiter included, so that the tokens and their delimiters give the input
  back. On \<open>a-b-c-d\<close> with separator \<open>-\<close> and count 2 the code returns \<open>a\<close> and \<open>bc-d\<close>:
  the delimiter at the scan position is skipped, and the input is not reproduced.
\<close>

theorem split_truncation_skips_delimiter:
  "split ''a-b-c-d'' ''-'' 2 none = Inr [''a'', ''bc-d'']
   \<and> ''a'' @ ''-'' @ ''bc-d'' \<noteq> ''a-b-c-d''"
  by (simp add: split_eval)

text \<open>
  C2. At the end of the input the pending buffer is claimed to be closed as a final
  token under the keep-empty policy. The code closes a token only inside the loop: the
  empty text gives no token at all, and a text that ends with a separator gets no final
  empty token.
\<close>

theorem split_no_token_after_last_separator:
  "split [] ''-'' size_t_max none = Inr []
   \<and> split ''a-'' ''-'' size_t_max none = Inr [''a'']"
  by (simp add: split_eval)

text \<open>
  C4, as the claim states it, fails: \<open>split\<close> on \<open>a-_aa-_\<close> with separators \<open>-\<close> and \<open>_\<close>,
  unbounded count and the keep-empty policy does not return the five tokens
  \<open>""\<close>, \<open>""\<close>, \<open>aa\<close>, \<open>""\<close>, \<open>""\<close>.
\<close>

theorem split_example_not_five_tokens:
  "split ''a-_aa-_'' ''-_'' size_t_max none \<noteq> Inr [[], [], ''aa'', [], []]"
  by (simp add: split_eval)

text \<open>
  C4, amended: \<open>split\<close> on \<open>a-_aa-_\<close> with separators \<open>-\<close> and \<open>_\<close>, unbounded count and
  the keep-empty policy returns a sequence that begins with the four tokens \<open>a\<close>, \<open>""\<close>,
  \<open>aa\<close>, \<open>""\<close>.
\<close>

theorem split_example_first_tokens:
  "\<exists>toks. split ''a-_aa-_'' ''-_'' size_t_max none = Inr toks
     \<and> take 4 toks = [''a'', [], ''aa'', []]"
  by (simp add: split_eval)

text \<open>
  C7, as the claim states it, fails: with count 1 the text \<open>a-b\<close> comes back unscanned as
  the only token, and splitting that token again with the same separator gives two
  tokens, not the token itself.
\<close>

theorem resplit_unscanned_token_differs:
  "split ''a-b'' ''-'' 1 none = Inr [''a-b'']
   \<and> split ''a-b'' ''-'' size_t_max none = Inr [''a'', ''b'']
   \<and> split ''a-b'' ''-'' size_t_max none \<noteq> Inr [''a-b'']"
  by (simp add: split_eval)

section \<open>Invariants of the split loop\<close>

declare split_loop.simps [simp del]

lemma split_loop_done:
  "\<not> it < length str \<Longrightarrow> split_loop str seps count options it list subString = Inr list"
  by (subst split_loop.simps) simp

lemma split_loop_skip:
  "it < length str \<Longrightarrow> \<not> closes str seps options it subString \<Longrightarrow>
   split_loop str seps count options it list subString
     = split_loop str seps count options (it + 1) list (pending str seps it subString)"
  by (subst split_loop.simps) (auto simp: Let_def pending_def closes_def)

lemma split_loop_push:
  "it < length str \<Longrightarrow> closes str seps options it subString \<Longrightarrow> length list \<noteq> count - 1 \<Longrightarrow>
   split_loop str seps count options it list subString
     = split_loop str seps count options (it + 1) (list @ [pending str seps it subString]) []"
  by (subst split_loop.simps) (auto simp: Let_def pending_def closes_def)

lemma split_loop_truncate:
  "it < length str \<Longrightarrow> closes str seps options it subString \<Longrightarrow> length list = count - 1 \<Longrightarrow>
   split_loop str seps count options it list subString
     = (case remainder str seps it of
          Inl e \<Rightarrow> Inl e
        | Inr tail \<Rightarrow> Inr (list @ [pending str seps it subString @ tail]))"
  by (subst split_loop.simps)
    (auto simp: Let_def pending_def closes_def remainder_def Suc_diff_le split: sum.splits)

lemma pending_separator_free:
  "set subString \<inter> set seps = {} \<Longrightarrow> set (pending str seps it subString) \<inter> set seps = {}"
  by (simp add: pending_def)

text \<open>
  Every token pushed by the normal branch is free of separators; only the element the
  truncation branch pushes, at index \<open>count - 1\<close>, carries raw input.
\<close>

lemma split_loop_separator_free:
  "split_loop str seps count options it list subString = Inr toks \<Longrightarrow>
   \<forall>t \<in> set list. set t \<inter> set seps = {} \<Longrightarrow> set subString \<inter> set seps = {} \<Longrightarrow>
   j < length toks \<Longrightarrow> j \<noteq> count - 1 \<Longrightarrow> set (toks ! j) \<inter> set seps = {}"
proof (induction "length str - it" arbitrary: it list subString)
  case 0
  then have "toks = list"
    by (simp add: split_loop_done)
  with "0.prems" show ?case
    by simp
next
  case (Suc n)
  then have inside: "it < length str" and next_it: "n = length str - (it + 1)"
    by simp_all
  note sub_free = pending_separator_free [OF Suc.prems(3), of str it]
  show ?case
  proof (cases "closes str seps options it subString")
    case False
    with inside Suc.prems(1)
    have "split_loop str seps count options (it + 1) list (pending str seps it subString) = Inr toks"
      by (simp add: split_loop_skip)
    from Suc.hyps(1) [OF next_it this Suc.prems(2) sub_free Suc.prems(4,5)]
    show ?thesis .
  next
    case close: True
    show ?thesis
    proof (cases "length list = count - 1")
      case True
      with inside close Suc.prems(1)
      obtain tail where "toks = list @ [pending str seps it subString @ tail]"
        by (auto simp: split_loop_truncate split: sum.splits)
      with Suc.prems(2,4,5) True show ?thesis
        by (auto simp: nth_append)
    next
      case False
      with inside close Suc.prems(1)
      have run: "split_loop str seps count options (it + 1)
                   (list @ [pending str seps it subString]) [] = Inr toks"
        by (simp add: split_loop_push)
      have "\<forall>t \<in> set (list @ [pending str seps it subString]). set t \<inter> set seps = {}"
        using Suc.prems(2) sub_free by auto
      from Suc.hyps(1) [OF next_it run this _ Suc.prems(4,5)]
      show ?thesis by simp
    qed
  qed
qed

lemma split_loop_length:
  "split_loop str seps count options it list subString = Inr toks \<Longrightarrow>
   length list \<le> count - 1 \<Longrightarrow> 0 < count \<Longrightarrow> length toks \<le> count"
proof (induction "length str - it" arbitrary: it list subString)
  case 0
  then show ?case
    by (auto simp: split_loop_done)
next
  case (Suc n)
  then have inside: "it < length str" and next_it: "n = length str - (it + 1)"
    by simp_all
  show ?case
  proof (cases "closes str seps options it subString")
    case False
    with inside Suc.prems(1)
    have "split_loop str seps count options (it + 1) list (pending str seps it subString) = Inr toks"
      by (simp add: split_loop_skip)
    from Suc.hyps(1) [OF next_it this Suc.prems(2,3)]
    show ?thesis .
  next
    case close: True
    show ?thesis
    proof (cases "length list = count - 1")
      case True
      with inside close Suc.prems(1)
      obtain tail where "toks = list @ [pending str seps it subString @ tail]"
        by (auto simp: split_loop_truncate split: sum.splits)
      with Suc.prems(3) True show ?thesis
        by simp
    next
      case False
      with inside close Suc.prems(1)
      have run: "split_loop str seps count options (it + 1)
                   (list @ [pending str seps it subString]) [] = Inr toks"
        by (simp add: split_loop_push)
      have "length (list @ [pending str seps it subString]) \<le> count - 1"
        using Suc.prems(2) False by simp
      from Suc.hyps(1) [OF next_it run this Suc.prems(3)]
      show ?thesis .
    qed
  qed
qed

lemma c_str_drop_last:
  assumes "it = length str - 1" and "x \<in> set (drop it (c_str str))"
  shows "x = str ! it"
proof -
  let ?cs = "c_str str"
  from assms(2) obtain k where k: "k < length ?cs - it" and x: "x = ?cs ! (it + k)"
    by (auto simp: in_set_conv_nth)
  have "length ?cs \<le> length str"
    by (simp add: c_str_def length_takeWhile_le)
  with k assms(1) have "k = 0" and "it < length ?cs"
    by simp_all
  with x show ?thesis
    by (simp add: c_str_def takeWhile_nth)
qed

text \<open>
  When the truncation branch runs on a last character that is no separator, it appends
  nothing but that character.
\<close>

lemma remainder_last_char:
  assumes "it = length str - 1" and "str ! it \<notin> set seps"
    and "remainder str seps it = Inr tail"
  shows "set tail \<inter> set seps = {}"
proof -
  from assms(2,3) have "set tail \<subseteq> set (drop it (c_str str))"
    by (auto simp: remainder_def substr_ctor_def split: if_splits dest: in_set_takeD)
  with c_str_drop_last [OF assms(1)] have "set tail \<subseteq> {str ! it}"
    by blast
  with assms(2) show ?thesis
    by auto
qed

lemma remainder_after_separator:
  assumes "str ! it \<in> set seps" and "remainder str seps it = Inr tail" and "tail \<noteq> []"
  shows "Suc it < length str
         \<and> substr_ctor (c_str str) (Suc it) (length str - it + 1) = Inr tail"
proof -
  from assms(1,2) have sub: "substr_ctor (c_str str) (Suc it) (length str - it + 1) = Inr tail"
    by (simp add: remainder_def)
  with assms(3) have "Suc it < length (c_str str)"
    by (auto simp: substr_ctor_def split: if_splits)
  moreover have "length (c_str str) \<le> length str"
    by (simp add: c_str_def length_takeWhile_le)
  ultimately show ?thesis
    using sub by simp
qed

text \<open>
  A token that holds a separator is the last one, and the truncation branch built it at
  a separator with input left after it.
\<close>

lemma split_loop_token_with_separator:
  "split_loop str seps count options it list subString = Inr toks \<Longrightarrow>
   \<forall>t \<in> set list. set t \<inter> set seps = {} \<Longrightarrow> set subString \<inter> set seps = {} \<Longrightarrow>
   j < length toks \<Longrightarrow> set (toks ! j) \<inter> set seps \<noteq> {} \<Longrightarrow>
   Suc j = length toks
   \<and> (\<exists>i sub tail. Suc i < length str \<and> str ! i \<in> set seps \<and> set sub \<inter> set seps = {}
         \<and> substr_ctor (c_str str) (Suc i) (length str - i + 1) = Inr tail
         \<and> toks ! j = sub @ tail)"
proof (induction "length str - it" arbitrary: it list subString)
  case 0
  then have "toks = list"
    by (simp add: split_loop_done)
  with "0.prems" show ?case
    by simp
next
  case (Suc n)
  then have inside: "it < length str" and next_it: "n = length str - (it + 1)"
    by simp_all
  note sub_free = pending_separator_free [OF Suc.prems(3), of str it]
  show ?case
  proof (cases "closes str seps options it subString")
    case False
    with inside Suc.prems(1)
    have "split_loop str seps count options (it + 1) list (pending str seps it subString) = Inr toks"
      by (simp add: split_loop_skip)
    from Suc.hyps(1) [OF next_it this Suc.prems(2) sub_free Suc.prems(4,5)]
    show ?thesis .
  next
    case close: True
    show ?thesis
    proof (cases "length list = count - 1")
      case True
      with inside close Suc.prems(1)
      obtain tail where rem: "remainder str seps it = Inr tail"
        and toks: "toks = list @ [pending str seps it subString @ tail]"
        by (auto simp: split_loop_truncate split: sum.splits)
      from toks Suc.prems(2,4,5) have j: "j = length list"
        by (cases "j < length list") (auto simp: nth_append)
      with toks have tok: "toks ! j = pending str seps it subString @ tail"
        by simp
      with Suc.prems(5) sub_free have dirty: "set tail \<inter> set seps \<noteq> {}"
        by auto
      have is_sep: "str ! it \<in> set seps"
      proof (rule ccontr)
        assume no_sep: "str ! it \<notin> set seps"
        with close have "it = length str - 1"
          by (simp add: closes_def)
        from remainder_last_char [OF this no_sep rem] dirty show False
          by simp
      qed
      from dirty have "tail \<noteq> []"
        by auto
      from remainder_after_separator [OF is_sep rem this] sub_free tok is_sep
      have "\<exists>i sub tail. Suc i < length str \<and> str ! i \<in> set seps \<and> set sub \<inter> set seps = {}
              \<and> substr_ctor (c_str str) (Suc i) (length str - i + 1) = Inr tail
              \<and> toks ! j = sub @ tail"
        by blast
      with j toks show ?thesis
        by simp
    next
      case False
      with inside close Suc.prems(1)
      have run: "split_loop str seps count options (it + 1)
                   (list @ [pending str seps it subString]) [] = Inr toks"
        by (simp add: split_loop_push)
      have "\<forall>t \<in> set (list @ [pending str seps it subString]). set t \<inter> set seps = {}"
        using Suc.prems(2) sub_free by auto
      from Suc.hyps(1) [OF next_it run this _ Suc.prems(4,5)]
      show ?thesis by simp
    qed
  qed
qed

text \<open>
  C6. No character of the effective separator set appears inside a token of the result,
  the truncated final token apart. A token that holds a separator is the last element,
  at position \<open>count - 1\<close> of a result of \<open>count\<close> elements, and it is either the
  unscanned text returned for count 1 or a separator-free pending buffer followed by
  the raw remainder of the text after a separator that is not its last character: the
  count limit was reached with input left.
\<close>

theorem split_tokens_separator_free:
  assumes "split text separators count options = Inr toks" and "j < length toks"
  shows "length toks \<le> count
     \<and> (set (toks ! j) \<inter> set (split_char_separators separators) = {}
        \<or> Suc j = count \<and> length toks = count
          \<and> (count = 1 \<and> toks ! j = text
             \<or> (\<exists>i sub tail. Suc i < length text
                  \<and> text ! i \<in> set (split_char_separators separators)
                  \<and> set sub \<inter> set (split_char_separators separators) = {}
                  \<and> substr_ctor (c_str text) (Suc i) (length text - i + 1) = Inr tail
                  \<and> toks ! j = sub @ tail)))"
proof (cases "count = 0 \<or> count = 1")
  case True
  with assms show ?thesis
    by (auto simp: split_def)
next
  case False
  let ?seps = "split_char_separators separators"
  from False assms(1)
  have run: "split_loop text ?seps count options 0 [] [] = Inr toks"
    by (simp add: split_def)
  from split_loop_length [OF run] False have len: "length toks \<le> count"
    by simp
  show ?thesis
  proof (cases "set (toks ! j) \<inter> set ?seps = {}")
    case True
    with len show ?thesis
      by simp
  next
    case dirty: False
    from split_loop_token_with_separator [OF run _ _ assms(2) dirty]
    have last: "Suc j = length toks"
      and raw: "\<exists>i sub tail. Suc i < length text \<and> text ! i \<in> set ?seps
                  \<and> set sub \<inter> set ?seps = {}
                  \<and> substr_ctor (c_str text) (Suc i) (length text - i + 1) = Inr tail
                  \<and> toks ! j = sub @ tail"
      by simp_all
    from split_loop_separator_free [OF run _ _ assms(2)] dirty have "j = count - 1"
      by auto
    with False have "Suc j = count"
      by simp
    with last raw len show ?thesis
      by simp
  qed
qed

theorem split_tokens_separator_free_witness:
  "split ''a-b-c-d'' ''-'' 3 none = Inr [''a'', ''b'', ''cd'']
   \<and> (1 :: nat) < length [''a'', ''b'', ''cd'']
   \<and> length [''a'', ''b'', ''cd''] \<le> 3
   \<and> set ([''a'', ''b'', ''cd''] ! 1) \<inter> set (split_char_separators ''-'') = {}"
proof -
  have run: "split ''a-b-c-d'' ''-'' 3 none = Inr [''a'', ''b'', ''cd'']"
    by (simp add: split_eval split_loop.simps)
  from split_tokens_separator_free [OF run, of 1] show ?thesis
    using run by (simp add: split_char_separators_def)
qed

section \<open>Splitting a token again\<close>

lemma split_loop_no_separator:
  "set str \<inter> set seps = {} \<Longrightarrow> it < length str \<Longrightarrow> count - 1 \<noteq> 0 \<Longrightarrow>
   split_loop str seps count options it [] subString = Inr [subString @ drop it str]"
proof (induction "length str - it" arbitrary: it subString)
  case 0
  then show ?case
    by simp
next
  case (Suc n)
  from Suc.prems(1,2) have no_sep: "str ! it \<notin> set seps"
    using nth_mem [of it str] by blast
  then have pend: "pending str seps it subString = subString @ [str ! it]"
    by (simp add: pending_def)
  from Suc.prems(2) have unfold_drop: "drop it str = str ! it # drop (Suc it) str"
    by (simp add: Cons_nth_drop_Suc)
  show ?case
  proof (cases "it = length str - 1")
    case True
    with pend have "closes str seps options it subString"
      by (simp add: closes_def)
    with Suc.prems(2,3)
    have "split_loop str seps count options it [] subString
            = split_loop str seps count options (it + 1) [subString @ [str ! it]] []"
      using split_loop_push [of it str seps options subString "[]" count] pend by simp
    also from True Suc.prems(2) have "\<dots> = Inr [subString @ [str ! it]]"
      by (simp add: split_loop_done)
    finally show ?thesis
      using True Suc.prems(2) unfold_drop by simp
  next
    case False
    with no_sep have "\<not> closes str seps options it subString"
      by (simp add: closes_def)
    with Suc.prems(2)
    have "split_loop str seps count options it [] subString
            = split_loop str seps count options (it + 1) [] (subString @ [str ! it])"
      using split_loop_skip [of it str seps options subString count "[]"] pend by simp
    also have "\<dots> = Inr [(subString @ [str ! it]) @ drop (it + 1) str]"
    proof (rule Suc.hyps(1))
      show "n = length str - (it + 1)"
        using Suc.hyps(2) by simp
      show "it + 1 < length str"
        using False Suc.prems(2) by simp
    qed (fact Suc.prems(1) Suc.prems(3))+
    finally show ?thesis
      using unfold_drop by simp
  qed
qed

lemma split_separator_free_token:
  assumes "t \<noteq> []" and "set t \<inter> set (split_char_separators separators) = {}"
  shows "split t separators size_t_max options = Inr [t]"
proof -
  from assms(1) have "0 < length t"
    by simp
  from split_loop_no_separator [OF assms(2) this, of size_t_max options "[]"]
  show ?thesis
    by (simp add: split_def size_t_max_def)
qed

text \<open>
  C7, amended: for every text, separator set, count and policy, every non-empty token of
  the result that stands before position \<open>count - 1\<close> (so neither the truncated final
  token nor the unscanned text returned for count 1) splits again, with the same
  separator set, unbounded count and the same policy, into the one-element sequence of
  itself.
\<close>

theorem resplit_token:
  assumes "split text separators count options = Inr toks"
    and "j < length toks" and "Suc j < count" and "toks ! j \<noteq> []"
  shows "split (toks ! j) separators size_t_max options = Inr [toks ! j]"
proof -
  from assms(3) have "count \<noteq> 0" "count \<noteq> 1" "j \<noteq> count - 1"
    by simp_all
  with assms(1)
  have run: "split_loop text (split_char_separators separators) count options 0 [] [] = Inr toks"
    by (simp add: split_def)
  from split_loop_separator_free [OF run _ _ assms(2) \<open>j \<noteq> count - 1\<close>]
  have "set (toks ! j) \<inter> set (split_char_separators separators) = {}"
    by simp
  with assms(4) show ?thesis
    by (rule split_separator_free_token)
qed

theorem resplit_token_witness:
  "split ''a-b-c-d'' ''-'' 3 none = Inr [''a'', ''b'', ''cd'']
   \<and> (1 :: nat) < length [''a'', ''b'', ''cd''] \<and> Suc 1 < (3 :: nat)
   \<and> [''a'', ''b'', ''cd''] ! 1 \<noteq> []
   \<and> split ([''a'', ''b'', ''cd''] ! 1) ''-'' size_t_max none = Inr [[''a'', ''b'', ''cd''] ! 1]"
proof -
  have run: "split ''a-b-c-d'' ''-'' 3 none = Inr [''a'', ''b'', ''cd'']"
    by (simp add: split_eval split_loop.simps)
  from resplit_token [OF run, of 1] show ?thesis
    using run by simp
qed

end
